theory Spec2Isabelle
  imports Main "HOL-Library.Word"
begin

unbundle bit_operations_syntax

section \<open>OpenSSL::KDF.pbkdf2_hmac (ext/openssl/ossl_kdf.c)\<close>

text \<open>
  The source file holds one function, \<^verbatim>\<open>kdf_pbkdf2_hmac\<close>: it unpacks the Ruby
  arguments, converts them to C values, allocates the result string and hands the
  derivation to libcrypto's \<^verbatim>\<open>PKCS5_PBKDF2_HMAC\<close>. The model follows it statement by
  statement. Ruby objects live in an explicit store, every \<^verbatim>\<open>raise\<close> is a value
  of a sum type, and the function's \<^verbatim>\<open>static\<close> array is part of the state.
\<close>

subsection \<open>Ruby values, exceptions and the state\<close>

type_synonym byte = "8 word"
type_synonym bytes = "byte list"

text \<open>
  A digest (\<^verbatim>\<open>const EVP_MD *\<close>) as the derivation uses it: the length of its output
  and the HMAC built on it, \<open>PRF md key message\<close>.
\<close>

record evp_md =
  hLen :: nat
  PRF :: "bytes \<Rightarrow> bytes \<Rightarrow> bytes"

text \<open>
  The fragment of Ruby's \<^verbatim>\<open>VALUE\<close> the function can tell apart: a String (the address
  of its bytes in the store), an Integer of any size, an \<^verbatim>\<open>OpenSSL::Digest\<close> instance,
  and \<^verbatim>\<open>nil\<close> standing for every other object.
\<close>

datatype rb_value = RString nat | RInteger int | RDigest evp_md | RNil

text \<open>An \<^verbatim>\<open>ID\<close> is an interned symbol; the zero \<^verbatim>\<open>ID\<close> is no symbol.\<close>

datatype ID = NoID | Sym string

text \<open>
  The exceptions that can leave the function. \<open>KDFError\<close> is the only one the source
  raises itself (line 62); the others come out of the conversions it calls.
\<close>

datatype rb_exception =
    ArgumentError
  | TypeError
  | RangeError
  | UnsupportedHashAlgorithm
  | KDFError

text \<open>
  The state: the Ruby strings (\<open>heap\<close>, with \<open>next_obj\<close> the first address not yet
  allocated), the \<^verbatim>\<open>static ID kwargs_ids[4]\<close> of the function, and a count of the
  PRF invocations made so far.
\<close>

record world =
  heap :: "nat \<Rightarrow> bytes"
  next_obj :: nat
  kwargs_ids :: "ID \<times> ID \<times> ID \<times> ID"
  prf_calls :: nat

subsection \<open>The Ruby C API the function calls\<close>

text \<open>
  These belong to the Ruby interpreter, not to this repository; each definition states
  the contract the source relies on.
\<close>

definition rb_intern_const :: "string \<Rightarrow> ID" where
  "rb_intern_const name = Sym name"

text \<open>
  \<^verbatim>\<open>rb_get_kwargs(opts, ids, 4, 0, kwargs)\<close>: four required keywords and no optional
  one. A missing keyword and an unknown keyword both raise \<open>ArgumentError\<close>.
\<close>

definition rb_get_kwargs ::
  "(ID \<times> rb_value) list \<Rightarrow> ID \<times> ID \<times> ID \<times> ID \<Rightarrow>
   rb_exception + (rb_value \<times> rb_value \<times> rb_value \<times> rb_value)" where
  "rb_get_kwargs opts ids =
     (case ids of (i0, i1, i2, i3) \<Rightarrow>
        (case (map_of opts i0, map_of opts i1, map_of opts i2, map_of opts i3) of
           (Some v0, Some v1, Some v2, Some v3) \<Rightarrow>
             if filter (\<lambda>k. k \<notin> set [i0, i1, i2, i3]) (map fst opts) = []
             then Inr (v0, v1, v2, v3) else Inl ArgumentError
         | _ \<Rightarrow> Inl ArgumentError))"

text \<open>\<^verbatim>\<open>StringValue(v)\<close>: a String is itself; anything else modelled here is not convertible.\<close>

definition StringValue :: "rb_value \<Rightarrow> rb_exception + nat" where
  "StringValue v = (case v of RString a \<Rightarrow> Inr a | _ \<Rightarrow> Inl TypeError)"

text \<open>
  \<^verbatim>\<open>NUM2INT(v)\<close>: the Integer as a C \<^verbatim>\<open>int\<close>; \<open>RangeError\<close> when it does not fit in
  32 bits, \<open>TypeError\<close> when the object is no number.
\<close>

definition INT_MAX :: int where
  "INT_MAX = 2147483647"

definition NUM2INT :: "rb_value \<Rightarrow> rb_exception + int" where
  "NUM2INT v =
     (case v of
        RInteger i \<Rightarrow> if - INT_MAX - 1 \<le> i \<and> i \<le> INT_MAX then Inr i else Inl RangeError
      | _ \<Rightarrow> Inl TypeError)"

text \<open>
  \<^verbatim>\<open>rb_str_new(0, len)\<close>: a new String of \<open>len\<close> bytes at a fresh address;
  \<open>ArgumentError\<close> ("negative string size") when \<open>len\<close> is negative. The bytes are
  not initialised by Ruby; the model fills them with zeros.
\<close>

definition rb_str_new :: "int \<Rightarrow> world \<Rightarrow> rb_exception + (nat \<times> world)" where
  "rb_str_new len w =
     (if len < 0 then Inl ArgumentError
      else Inr (next_obj w,
                w\<lparr>heap := (heap w)(next_obj w := replicate (nat len) 0),
                  next_obj := Suc (next_obj w)\<rparr>))"

text \<open>\<^verbatim>\<open>RSTRING_LENINT(s)\<close>: the length as a C \<^verbatim>\<open>int\<close>, \<open>RangeError\<close> when it does not fit.\<close>

definition RSTRING_LENINT :: "world \<Rightarrow> nat \<Rightarrow> rb_exception + int" where
  "RSTRING_LENINT w s =
     (if int (length (heap w s)) \<le> INT_MAX then Inr (int (length (heap w s)))
      else Inl RangeError)"

text \<open>
  Writing through \<^verbatim>\<open>RSTRING_PTR(str)\<close>: the bytes \<open>out\<close> replace the front of the
  buffer, whose size does not change.
\<close>

definition store_out :: "bytes \<Rightarrow> bytes \<Rightarrow> bytes" where
  "store_out buf out = take (length buf) (out @ drop (length out) buf)"

subsection \<open>Resolving the digest\<close>

text \<open>
  Modelled from the spec: \<^verbatim>\<open>GetDigestPtr\<close> is defined in ossl_digest.c; this file
  only calls it (line 55). It is the spec's resolution of a hash identifier to a PRF
  capability (4.1): a name the library \<open>lib\<close> implements, or a digest object,
  resolves; any other identifier fails with \<open>UnsupportedHashAlgorithm\<close>.
\<close>

definition GetDigestPtr ::
  "(bytes \<Rightarrow> evp_md option) \<Rightarrow> world \<Rightarrow> rb_value \<Rightarrow> rb_exception + evp_md" where
  "GetDigestPtr lib w v =
     (case v of
        RString a \<Rightarrow>
          (case lib (heap w a) of
             Some md \<Rightarrow> Inr md
           | None \<Rightarrow> Inl UnsupportedHashAlgorithm)
      | RDigest md \<Rightarrow> Inr md
      | _ \<Rightarrow> Inl UnsupportedHashAlgorithm)"

subsection \<open>The function\<close>

text \<open>
  libcrypto's \<^verbatim>\<open>PKCS5_PBKDF2_HMAC(pass, passlen, salt, saltlen, iter, md, keylen, out)\<close>
  is a parameter of the model. Its \<open>pass\<close> and \<open>salt\<close> are pointers to
  \<^verbatim>\<open>const\<close>, so it gets their bytes and cannot change them; it returns whether it
  succeeded, the bytes it wrote to \<open>out\<close> and the number of PRF invocations it made.
\<close>

type_synonym pkcs5_fn =
  "bytes \<Rightarrow> int \<Rightarrow> bytes \<Rightarrow> int \<Rightarrow> int \<Rightarrow> evp_md \<Rightarrow> int \<Rightarrow> bool \<times> bytes \<times> nat"

definition kdf_pbkdf2_hmac ::
  "pkcs5_fn \<Rightarrow> (bytes \<Rightarrow> evp_md option) \<Rightarrow> rb_value \<Rightarrow> (ID \<times> rb_value) list \<Rightarrow>
   world \<Rightarrow> (rb_exception + rb_value) \<times> world" where
  "kdf_pbkdf2_hmac derive lib pass_arg opts w0 =
     (let w = (if fst (kwargs_ids w0) = NoID
               then w0\<lparr>kwargs_ids :=
                       (rb_intern_const ''salt'', rb_intern_const ''iterations'',
                        rb_intern_const ''length'', rb_intern_const ''hash'')\<rparr>
               else w0)
      in case rb_get_kwargs opts (kwargs_ids w) of
           Inl e \<Rightarrow> (Inl e, w)
         | Inr (k0, k1, k2, k3) \<Rightarrow>
      (case StringValue pass_arg of
           Inl e \<Rightarrow> (Inl e, w)
         | Inr pass \<Rightarrow>
      (case StringValue k0 of
           Inl e \<Rightarrow> (Inl e, w)
         | Inr salt \<Rightarrow>
      (case NUM2INT k1 of
           Inl e \<Rightarrow> (Inl e, w)
         | Inr iters \<Rightarrow>
      (case NUM2INT k2 of
           Inl e \<Rightarrow> (Inl e, w)
         | Inr len \<Rightarrow>
      (case GetDigestPtr lib w k3 of
           Inl e \<Rightarrow> (Inl e, w)
         | Inr md \<Rightarrow>
      (case rb_str_new len w of
           Inl e \<Rightarrow> (Inl e, w)
         | Inr (str, w') \<Rightarrow>
      (case RSTRING_LENINT w' pass of
           Inl e \<Rightarrow> (Inl e, w')
         | Inr passlen \<Rightarrow>
      (case RSTRING_LENINT w' salt of
           Inl e \<Rightarrow> (Inl e, w')
         | Inr saltlen \<Rightarrow>
      (case derive (heap w' pass) passlen (heap w' salt) saltlen iters md len of
           (ok, out, n) \<Rightarrow>
             (let w'' = w'\<lparr>heap := (heap w')(str := store_out (heap w' str) out),
                            prf_calls := prf_calls w' + n\<rparr>
              in if \<not> ok then (Inl KDFError, w'') else (Inr (RString str), w''))))))))))))"

subsection \<open>The PBKDF2 engine\<close>

text \<open>
  Modelled from the spec: \<^verbatim>\<open>PKCS5_PBKDF2_HMAC\<close> is libcrypto's; this file only calls
  it (line 58). The definitions below are the engine of the spec's section 4.2, step
  by step, over a digest \<open>md\<close> that stays a parameter. Each function also counts the
  PRF invocations it makes.
\<close>

datatype failure = InvalidParameter | OutputTooLarge

text \<open>Step 3a: \<open>INT(i)\<close>, the big-endian four-byte encoding of the block index.\<close>

definition INT_be :: "nat \<Rightarrow> bytes" where
  "INT_be i = [of_nat (i div 2 ^ 24), of_nat (i div 2 ^ 16), of_nat (i div 2 ^ 8), of_nat i]"

text \<open>Lane-wise XOR of two buffers.\<close>

definition xor_bytes :: "bytes \<Rightarrow> bytes \<Rightarrow> bytes" where
  "xor_bytes a b = map2 (XOR) a b"

text \<open>
  Steps 3c and 3d: for \<open>j\<close> from 2 to \<open>iterations\<close>, compute the next \<open>U\<close> from the
  previous one and XOR it into the running accumulator; only the accumulator and
  the current \<open>U\<close> are live.
\<close>

function iterate_prf ::
  "evp_md \<Rightarrow> bytes \<Rightarrow> nat \<Rightarrow> nat \<Rightarrow> bytes \<Rightarrow> bytes \<Rightarrow> nat \<Rightarrow> bytes \<times> nat" where
  "iterate_prf md P j c u acc n =
     (if c < j then (acc, n)
      else (let u' = PRF md P u
            in iterate_prf md P (Suc j) c u' (xor_bytes acc u') (Suc n)))"
  by pat_completeness auto
termination
  by (relation "measure (\<lambda>(md, P, j, c, u, acc, n). Suc c - j)") auto

declare iterate_prf.simps [simp del]

text \<open>Steps 3a to 3d for one block index \<open>i\<close>.\<close>

definition block :: "evp_md \<Rightarrow> bytes \<Rightarrow> bytes \<Rightarrow> nat \<Rightarrow> nat \<Rightarrow> nat \<Rightarrow> bytes \<times> nat" where
  "block md P S c i n =
     (let u1 = PRF md P (S @ INT_be i)
      in iterate_prf md P 2 c u1 u1 (Suc n))"

text \<open>Steps 3 and 4: the blocks for the indices \<open>i\<close> to \<open>l\<close>, concatenated.\<close>

function blocks ::
  "evp_md \<Rightarrow> bytes \<Rightarrow> bytes \<Rightarrow> nat \<Rightarrow> nat \<Rightarrow> nat \<Rightarrow> nat \<Rightarrow> bytes \<times> nat" where
  "blocks md P S c i l n =
     (if l < i then ([], n)
      else (case block md P S c i n of
              (t, n') \<Rightarrow>
                (case blocks md P S c (Suc i) l n' of
                   (ts, n'') \<Rightarrow> (t @ ts, n''))))"
  by pat_completeness auto
termination
  by (relation "measure (\<lambda>(md, P, S, c, i, l, n). Suc l - i)") auto

declare blocks.simps [simp del]

text \<open>Step 2: the number of blocks, \<open>l = ceil(outputLength / hLen)\<close>.\<close>

definition block_count :: "evp_md \<Rightarrow> int \<Rightarrow> nat" where
  "block_count md outputLength = (nat outputLength + hLen md - 1) div hLen md"

text \<open>
  Steps 1, 4 and 5: validate, generate the blocks, concatenate and truncate.
\<close>

definition deriveKey ::
  "evp_md \<Rightarrow> bytes \<Rightarrow> bytes \<Rightarrow> int \<Rightarrow> int \<Rightarrow> (failure + bytes) \<times> nat" where
  "deriveKey md password salt iterations outputLength =
     (if iterations < 1 \<or> outputLength < 0 then (Inl InvalidParameter, 0)
      else (let l = block_count md outputLength
            in if 2 ^ 32 - 1 < l then (Inl OutputTooLarge, 0)
               else (case blocks md password salt (nat iterations) 1 l 0 of
                       (T, n) \<Rightarrow> (Inr (take (nat outputLength) T), n))))"

text \<open>The engine behind the C interface: success flag, bytes written, PRF invocations.\<close>

definition PKCS5_PBKDF2_HMAC :: pkcs5_fn where
  "PKCS5_PBKDF2_HMAC pass passlen salt saltlen iter md keylen =
     (case deriveKey md (take (nat passlen) pass) (take (nat saltlen) salt) iter keylen of
        (Inl _, n) \<Rightarrow> (False, [], n)
      | (Inr dk, n) \<Rightarrow> (True, dk, n))"

subsection \<open>The derived key in the spec's words\<close>

text \<open>
  The chain of one block: \<open>U_1 = PRF(password, salt || INT(i))\<close> and
  \<open>U_j = PRF(password, U_{j-1})\<close>, that is, the PRF applied \<open>j\<close> times.
\<close>

definition U_chain :: "evp_md \<Rightarrow> bytes \<Rightarrow> bytes \<Rightarrow> nat \<Rightarrow> nat \<Rightarrow> bytes" where
  "U_chain md P S i j = (PRF md P ^^ j) (S @ INT_be i)"

text \<open>The block \<open>T_i = U_1 XOR U_2 XOR ... XOR U_c\<close>.\<close>

definition T_block :: "evp_md \<Rightarrow> bytes \<Rightarrow> bytes \<Rightarrow> nat \<Rightarrow> nat \<Rightarrow> bytes" where
  "T_block md P S c i =
     foldl xor_bytes (U_chain md P S i 1) (map (U_chain md P S i) [2..<Suc c])"

text \<open>
  A digest the adapter can present as a PRF (4.1): its length is positive and every
  PRF output has exactly that length.
\<close>

definition digest_ok :: "evp_md \<Rightarrow> bool" where
  "digest_ok md \<longleftrightarrow> 0 < hLen md \<and> (\<forall>k m. length (PRF md k m) = hLen md)"

subsection \<open>Calls of the function\<close>

text \<open>The four keyword symbols, as the first call interns them.\<close>

definition kdf_ids :: "ID \<times> ID \<times> ID \<times> ID" where
  "kdf_ids = (Sym ''salt'', Sym ''iterations'', Sym ''length'', Sym ''hash'')"

text \<open>
  The states the static array can be in: still zero (no call yet), or holding the four
  symbols.
\<close>

definition static_ok :: "world \<Rightarrow> bool" where
  "static_ok w \<longleftrightarrow> kwargs_ids w = (NoID, NoID, NoID, NoID) \<or> kwargs_ids w = kdf_ids"

text \<open>
  The call \<^verbatim>\<open>pbkdf2_hmac(pass, salt: s, iterations: c, length: len, hash: h)\<close> in the
  state \<open>w\<close>, with the String \<open>p\<close> as \<open>pass\<close> and the String \<open>s\<close> as salt, both
  allocated in \<open>w\<close>.
\<close>

definition kdf_call ::
  "world \<Rightarrow> rb_value \<Rightarrow> (ID \<times> rb_value) list \<Rightarrow> nat \<Rightarrow> nat \<Rightarrow> int \<Rightarrow> int \<Rightarrow> rb_value \<Rightarrow> bool" where
  "kdf_call w pass_arg opts p s c len h \<longleftrightarrow>
     static_ok w \<and> pass_arg = RString p \<and>
     rb_get_kwargs opts kdf_ids = Inr (RString s, RInteger c, RInteger len, h) \<and>
     p < next_obj w \<and> s < next_obj w"

text \<open>The bytes of the String a call returned, or the exception it raised.\<close>

definition returned :: "(rb_exception + rb_value) \<times> world \<Rightarrow> rb_exception + bytes" where
  "returned r =
     (case fst r of
        Inl e \<Rightarrow> Inl e
      | Inr (RString a) \<Rightarrow> Inr (heap (snd r) a)
      | Inr _ \<Rightarrow> Inr [])"

subsection \<open>A concrete run\<close>

text \<open>
  The digests are libcrypto's and a parameter of every statement. To run the model on
  concrete inputs, \<open>xsum_md\<close> is a two-byte keyed checksum in the place of a digest.
\<close>

definition xsum_md :: evp_md where
  "xsum_md = \<lparr>hLen = 2,
              PRF = (\<lambda>key msg. [foldr (+) (key @ msg) 1,
                                 foldr (XOR) msg (of_nat (length key))])\<rparr>"

definition xsum_lib :: "bytes \<Rightarrow> evp_md option" where
  "xsum_lib name = (if name = [0x78, 0x73, 0x75, 0x6d] then Some xsum_md else None)"

text \<open>
  A state before the first call, holding the Strings \<^verbatim>\<open>"pw"\<close> (address 0),
  \<^verbatim>\<open>"NaCl"\<close> (1), \<^verbatim>\<open>"xsum"\<close> (2) and \<^verbatim>\<open>"md5"\<close> (3).
\<close>

definition world0 :: world where
  "world0 = \<lparr>heap = (\<lambda>_. [])(0 := [0x70, 0x77], 1 := [0x4e, 0x61, 0x43, 0x6c],
                             2 := [0x78, 0x73, 0x75, 0x6d], 3 := [0x6d, 0x64, 0x35]),
             next_obj = 4,
             kwargs_ids = (NoID, NoID, NoID, NoID),
             prf_calls = 0\<rparr>"

text \<open>The keyword hash \<^verbatim>\<open>{salt: "NaCl", iterations: c, length: len, hash: h}\<close>.\<close>

definition kwargs0 :: "int \<Rightarrow> int \<Rightarrow> rb_value \<Rightarrow> (ID \<times> rb_value) list" where
  "kwargs0 c len h =
     [(Sym ''salt'', RString 1), (Sym ''iterations'', RInteger c),
      (Sym ''length'', RInteger len), (Sym ''hash'', h)]"

section \<open>Properties of the engine\<close>

subsection \<open>The loops compute the spec's chain and blocks\<close>

lemma U_chain_Suc: "U_chain md P S i (Suc j) = PRF md P (U_chain md P S i j)"
  by (simp add: U_chain_def)

lemma iterate_prf_fold:
  "j \<le> Suc c \<Longrightarrow> 
   iterate_prf md P (Suc j) (Suc c) (U_chain md P S i j) acc n =
     (foldl xor_bytes acc (map (U_chain md P S i) [Suc j..<Suc (Suc c)]), n + (Suc c - j))"
proof (induction "Suc c - j" arbitrary: j acc n)
  case 0
  then have j: "j = Suc c" by simp
  show ?case unfolding j by (subst iterate_prf.simps) simp
next
  case (Suc k)
  then have lt: "j \<le> c" by simp
  have up: "[Suc j..<Suc (Suc c)] = Suc j # [Suc (Suc j)..<Suc (Suc c)]"
    using lt by (simp add: upt_conv_Cons del: upt_Suc)
  have k: "k = Suc c - Suc j" using Suc.hyps(2) by simp
  have le: "Suc j \<le> Suc c" using lt by simp
  have cnt: "Suc n + (Suc c - Suc j) = n + (Suc c - j)" using lt by simp
  have "iterate_prf md P (Suc j) (Suc c) (U_chain md P S i j) acc n =
        iterate_prf md P (Suc (Suc j)) (Suc c) (U_chain md P S i (Suc j))
          (xor_bytes acc (U_chain md P S i (Suc j))) (Suc n)"
    using lt by (subst iterate_prf.simps) (simp add: Let_def U_chain_Suc)
  also have "\<dots> = (foldl xor_bytes (xor_bytes acc (U_chain md P S i (Suc j)))
                      (map (U_chain md P S i) [Suc (Suc j)..<Suc (Suc c)]),
                    Suc n + (Suc c - Suc j))"
    by (rule Suc.hyps(1)[OF k le])
  also have "\<dots> = (foldl xor_bytes acc (map (U_chain md P S i) [Suc j..<Suc (Suc c)]), n + (Suc c - j))"
    unfolding up cnt by simp
  finally show ?case .
qed

lemma block_eq:
  assumes "1 \<le> c"
  shows "block md P S c i n = (T_block md P S c i, n + c)"
proof -
  obtain c' where c: "c = Suc c'" using assms by (cases c) auto
  have "iterate_prf md P (Suc 1) (Suc c') (U_chain md P S i 1) (U_chain md P S i 1) (Suc n) =
     (foldl xor_bytes (U_chain md P S i 1) (map (U_chain md P S i) [Suc 1..<Suc (Suc c')]), Suc n + (Suc c' - 1))"
    by (rule iterate_prf_fold) simp
  then show ?thesis
    unfolding block_def T_block_def c Let_def
    by (simp add: U_chain_def numeral_2_eq_2 del: upt_Suc)
qed

lemma blocks_eq:
  "1 \<le> c \<Longrightarrow> i \<le> Suc l \<Longrightarrow>
   blocks md P S c i l n = (concat (map (T_block md P S c) [i..<Suc l]), n + (Suc l - i) * c)"
proof (induction "Suc l - i" arbitrary: i n)
  case 0
  then have i: "i = Suc l" by simp
  show ?case unfolding i by (subst blocks.simps) simp
next
  case (Suc k)
  then have lt: "i \<le> l" by simp
  have up: "[i..<Suc l] = i # [Suc i..<Suc l]"
    using lt by (simp add: upt_conv_Cons del: upt_Suc)
  have k: "k = Suc l - Suc i" using Suc.hyps(2) by simp
  have le: "Suc i \<le> Suc l" using lt by simp
  have ih: "blocks md P S c (Suc i) l (n + c) =
      (concat (map (T_block md P S c) [Suc i..<Suc l]), n + c + (Suc l - Suc i) * c)"
    by (rule Suc.hyps(1)[OF k Suc.prems(1) le])
  have cnt: "n + c + (Suc l - Suc i) * c = n + (Suc l - i) * c"
    using lt by (simp add: Suc_diff_le)
  have "blocks md P S c i l n =
        (T_block md P S c i @ concat (map (T_block md P S c) [Suc i..<Suc l]), n + c + (Suc l - Suc i) * c)"
    using lt by (subst blocks.simps) (simp add: block_eq[OF Suc.prems(1)] ih del: upt_Suc)
  then show ?case unfolding up cnt by simp
qed

subsection \<open>Lengths\<close>

lemma length_xor_bytes: "length (xor_bytes a b) = min (length a) (length b)"
  by (simp add: xor_bytes_def)

lemma length_U_chain: "digest_ok md \<Longrightarrow> length (U_chain md P S i (Suc j)) = hLen md"
  by (simp add: U_chain_def digest_ok_def)

lemma length_foldl_xor:
  "length acc = h \<Longrightarrow> \<forall>u \<in> set us. length u = h \<Longrightarrow> length (foldl xor_bytes acc us) = h"
  by (induction us arbitrary: acc) (simp_all add: length_xor_bytes)

lemma length_T_block: 
  assumes "digest_ok md" shows "length (T_block md P S c i) = hLen md"
proof -
  have "\<forall>u \<in> set (map (U_chain md P S i) [2..<Suc c]). length u = hLen md"
  proof
    fix u assume "u \<in> set (map (U_chain md P S i) [2..<Suc c])"
    then obtain j where "2 \<le> j" and u: "u = U_chain md P S i j" by auto
    then obtain j' where "j = Suc j'" by (cases j) auto
    then show "length u = hLen md" using u length_U_chain[OF assms] by simp
  qed
  moreover have "length (U_chain md P S i 1) = hLen md"
    using length_U_chain[OF assms, of P S i 0] by simp
  ultimately show ?thesis unfolding T_block_def by (rule length_foldl_xor[rotated])
qed

lemma length_concat_T:
  assumes "digest_ok md"
  shows "length (concat (map (T_block md P S c) is)) = length is * hLen md"
  by (induction "is") (simp_all add: length_T_block[OF assms])

lemma block_count_covers:
  assumes "0 < hLen md" "0 \<le> len"
  shows "nat len \<le> block_count md len * hLen md"
proof -
  define h where "h = hLen md"
  define n where "n = nat len"
  have h: "0 < h" using assms h_def by simp
  have "n + h - 1 < ((n + h - 1) div h) * h + h"
    using h by (metis add.commute div_mult_mod_eq mod_less_divisor add_less_cancel_left mult.commute)
  then have "n \<le> ((n + h - 1) div h) * h" using h by linarith
  then show ?thesis by (simp add: block_count_def h_def n_def)
qed

lemma block_count_le:
  assumes "0 < hLen md" 
  shows "block_count md len \<le> nat len"
proof -
  define h where "h = hLen md"
  define n where "n = nat len"
  have h: "0 < h" using assms h_def by simp
  have "(n + h - 1) div h \<le> n"
  proof (cases "n = 0")
    case True then show ?thesis using h by simp
  next
    case False
    have "n + h - 1 \<le> n * h" 
    proof -
      obtain n' where "n = Suc n'" using False by (cases n) auto
      moreover obtain h' where "h = Suc h'" using h by (cases h) auto
      ultimately show ?thesis by simp
    qed
    then have "(n + h - 1) div h \<le> (n * h) div h" by (rule div_le_mono)
    then show ?thesis using h by simp
  qed
  then show ?thesis by (simp add: block_count_def h_def n_def)
qed

lemma deriveKey_valid:
  assumes "1 \<le> c" "0 \<le> len" "block_count md len \<le> 2 ^ 32 - 1"
  shows "deriveKey md P S c len =
          (Inr (take (nat len) (concat (map (T_block md P S (nat c)) [1..<Suc (block_count md len)]))),
           block_count md len * nat c)"
proof -
  have c: "1 \<le> nat c" using assms(1) by simp
  have "blocks md P S (nat c) 1 (block_count md len) 0 =
     (concat (map (T_block md P S (nat c)) [1..<Suc (block_count md len)]), 0 + (Suc (block_count md len) - 1) * nat c)"
    by (rule blocks_eq[OF c]) simp
  then show ?thesis
    using assms by (simp add: deriveKey_def Let_def del: upt_Suc)
qed

lemma deriveKey_length:
  assumes "digest_ok md" "1 \<le> c" "0 \<le> len" "block_count md len \<le> 2 ^ 32 - 1"
  shows "\<exists>dk. fst (deriveKey md P S c len) = Inr dk \<and> length dk = nat len"
proof -
  have h: "0 < hLen md" using assms(1) by (simp add: digest_ok_def)
  have "length (concat (map (T_block md P S (nat c)) [1..<Suc (block_count md len)])) = block_count md len * hLen md"
    by (simp add: length_concat_T[OF assms(1)] del: upt_Suc)
  then show ?thesis
    using block_count_covers[OF h assms(3)] 
    by (simp add: deriveKey_valid[OF assms(2,3,4)] del: upt_Suc)
qed

subsection \<open>What the engine returns\<close>

lemma unat_byte: "unat (of_nat n :: byte) = n mod 256"
  by (simp add: unat_of_nat)

lemma INT_be_big_endian:
  assumes "i < 2 ^ 32"
  shows "length (INT_be i) = 4"
    and "foldl (\<lambda>a b. a * 256 + unat b) 0 (INT_be i) = i"
proof -
  show "length (INT_be i) = 4" by (simp add: INT_be_def)
  define c where "c = i div 256"
  define b where "b = c div 256"
  define a where "a = b div 256"
  have e1: "i div 2 ^ 8 = c" by (simp add: c_def)
  have e2: "i div 2 ^ 16 = b" by (simp add: b_def c_def div_mult2_eq[symmetric])
  have e3: "i div 2 ^ 24 = a" by (simp add: a_def b_def c_def div_mult2_eq[symmetric])
  have "a < 256" using assms unfolding e3[symmetric] by (simp add: less_mult_imp_div_less)
  then have top: "a mod 256 = a" by simp
  have s1: "a * 256 + b mod 256 = b" unfolding a_def by (rule div_mult_mod_eq)
  have s2: "b * 256 + c mod 256 = c" unfolding b_def by (rule div_mult_mod_eq)
  have s3: "c * 256 + i mod 256 = i" unfolding c_def by (rule div_mult_mod_eq)
  show "foldl (\<lambda>a b. a * 256 + unat b) 0 (INT_be i) = i"
    unfolding INT_be_def e1 e2 e3
    by (simp add: unat_byte top s1 s2 s3)
qed

lemma store_out_exact: "length out = n \<Longrightarrow> store_out (replicate n 0) out = out"
  by (simp add: store_out_def)

lemma length_store_out: "length (store_out buf out) = length buf"
  by (simp add: store_out_def)

lemma PKCS5_valid:
  assumes "1 \<le> c" "0 \<le> len" "block_count md len \<le> 2 ^ 32 - 1"
  shows "PKCS5_PBKDF2_HMAC P (int (length P)) S (int (length S)) c md len =
          (True,
           take (nat len) (concat (map (T_block md P S (nat c)) [1..<Suc (block_count md len)])),
           block_count md len * nat c)"
  by (simp add: PKCS5_PBKDF2_HMAC_def deriveKey_valid[OF assms] del: upt_Suc)

lemma block_count_int:
  assumes "digest_ok md" "len \<le> INT_MAX"
  shows "block_count md len \<le> 2 ^ 32 - 1"
proof -
  have "0 < hLen md" using assms(1) by (simp add: digest_ok_def)
  then have "block_count md len \<le> nat len" by (rule block_count_le)
  also have "\<dots> \<le> 2 ^ 32 - 1" using assms(2) by (simp add: INT_MAX_def)
  finally show ?thesis .
qed

lemma length_derived:
  assumes "digest_ok md" "0 \<le> len"
  shows "length (take (nat len) (concat (map (T_block md P S c) [1..<Suc (block_count md len)]))) = nat len"
proof -
  have h: "0 < hLen md" using assms(1) by (simp add: digest_ok_def)
  show ?thesis
    using block_count_covers[OF h assms(2)]
    by (simp add: length_concat_T[OF assms(1)] del: upt_Suc)
qed

lemma block_count_mono: "len \<le> len' \<Longrightarrow> block_count md len \<le> block_count md len'"
  by (simp add: block_count_def div_le_mono)

lemma concat_blocks_split:
  assumes "l \<le> l'"
  shows "concat (map f [1..<Suc l']) = concat (map f [1..<Suc l]) @ concat (map f [Suc l..<Suc l'])"
proof -
  have "[1..<Suc l'] = [1..<Suc l] @ [Suc l..<Suc l']"
    using assms upt_add_eq_append[of 1 "Suc l" "l' - l"] by simp
  then show ?thesis by (simp del: upt_Suc)
qed

lemma take_blocks_prefix:
  assumes md: "digest_ok md" and len: "0 \<le> len" "len \<le> len'"
  shows "take (nat len) (take (nat len')
            (concat (map (T_block md P S c) [1..<Suc (block_count md len')]))) =
         take (nat len) (concat (map (T_block md P S c) [1..<Suc (block_count md len)]))"
proof -
  let ?A = "concat (map (T_block md P S c) [1..<Suc (block_count md len)])"
  let ?B = "concat (map (T_block md P S c) [Suc (block_count md len)..<Suc (block_count md len')])"
  have h: "0 < hLen md" using md by (simp add: digest_ok_def)
  have cover: "nat len \<le> length ?A"
    using block_count_covers[OF h len(1)] by (simp add: length_concat_T[OF md] del: upt_Suc)
  have split: "concat (map (T_block md P S c) [1..<Suc (block_count md len')]) = ?A @ ?B"
    by (rule concat_blocks_split[OF block_count_mono[OF len(2)]])
  have "take (nat len) (take (nat len') (?A @ ?B)) = take (nat len) (?A @ ?B)"
    using len by (simp add: min_def)
  also have "\<dots> = take (nat len) ?A" using cover by simp
  finally show ?thesis unfolding split .
qed

lemma deriveKey_rejects:
  "iterations < 1 \<or> outputLength < 0 \<Longrightarrow>
     deriveKey md P S iterations outputLength = (Inl InvalidParameter, 0)"
  by (simp add: deriveKey_def)

lemma deriveKey_too_large:
  "1 \<le> iterations \<Longrightarrow> 0 \<le> outputLength \<Longrightarrow> 2 ^ 32 - 1 < block_count md outputLength \<Longrightarrow>
     deriveKey md P S iterations outputLength = (Inl OutputTooLarge, 0)"
  by (simp add: deriveKey_def Let_def)

section \<open>Properties of the function\<close>

subsection \<open>A well-typed call, statement by statement\<close>

lemma static_init:
  assumes "static_ok w"
  shows "(if fst (kwargs_ids w) = NoID
          then w\<lparr>kwargs_ids := (rb_intern_const ''salt'', rb_intern_const ''iterations'',
                                rb_intern_const ''length'', rb_intern_const ''hash'')\<rparr>
          else w) = w\<lparr>kwargs_ids := kdf_ids\<rparr>"
  using assms by (auto simp: static_ok_def kdf_ids_def rb_intern_const_def)

lemma GetDigestPtr_heap:
  "heap w' = heap w \<Longrightarrow> GetDigestPtr lib w' v = GetDigestPtr lib w v"
  by (cases v) (simp_all add: GetDigestPtr_def)

lemma kdf_typed:
  assumes call: "kdf_call w pass_arg opts p s c len h"
  shows "kdf_pbkdf2_hmac derive lib pass_arg opts w =
     (if c < - INT_MAX - 1 \<or> INT_MAX < c \<or> len < - INT_MAX - 1 \<or> INT_MAX < len
      then (Inl RangeError, w\<lparr>kwargs_ids := kdf_ids\<rparr>)
      else case GetDigestPtr lib w h of
        Inl e \<Rightarrow> (Inl e, w\<lparr>kwargs_ids := kdf_ids\<rparr>)
      | Inr md \<Rightarrow>
         if len < 0 then (Inl ArgumentError, w\<lparr>kwargs_ids := kdf_ids\<rparr>)
         else if INT_MAX < int (length (heap w p)) \<or> INT_MAX < int (length (heap w s))
         then (Inl RangeError,
               w\<lparr>kwargs_ids := kdf_ids,
                 heap := (heap w)(next_obj w := replicate (nat len) 0),
                 next_obj := Suc (next_obj w)\<rparr>)
         else case derive (heap w p) (int (length (heap w p))) (heap w s)
                     (int (length (heap w s))) c md len of
           (ok, out, n) \<Rightarrow>
             (if ok then Inr (RString (next_obj w)) else Inl KDFError,
              w\<lparr>kwargs_ids := kdf_ids,
                heap := (heap w)(next_obj w := store_out (replicate (nat len) 0) out),
                next_obj := Suc (next_obj w),
                prf_calls := prf_calls w + n\<rparr>))"
proof -
  have st: "static_ok w" and pa: "pass_arg = RString p"
    and kw: "rb_get_kwargs opts kdf_ids = Inr (RString s, RInteger c, RInteger len, h)"
    and p: "p \<noteq> next_obj w" and s: "s \<noteq> next_obj w"
    using call by (auto simp: kdf_call_def)
  have dg: "GetDigestPtr lib (w\<lparr>kwargs_ids := kdf_ids\<rparr>) h = GetDigestPtr lib w h"
    by (rule GetDigestPtr_heap) simp
  show ?thesis
    unfolding kdf_pbkdf2_hmac_def static_init[OF st] Let_def
    using p s
    by (auto simp: kw pa dg StringValue_def NUM2INT_def rb_str_new_def RSTRING_LENINT_def
             split: sum.splits prod.splits)
qed

lemma kdf_heap_frame:
  "a < next_obj w \<Longrightarrow> heap (snd (kdf_pbkdf2_hmac derive lib pass_arg opts w)) a = heap w a"
  by (cases "fst (kwargs_ids w) = NoID")
     (simp_all add: kdf_pbkdf2_hmac_def Let_def rb_str_new_def split: sum.split prod.split)

lemma kdf_result_fresh:
  "fst (kdf_pbkdf2_hmac derive lib pass_arg opts w) = Inr v \<Longrightarrow> v = RString (next_obj w)"
  by (cases "fst (kwargs_ids w) = NoID")
     (simp_all add: kdf_pbkdf2_hmac_def Let_def rb_str_new_def 
        split: sum.split_asm prod.split_asm if_split_asm)

subsection \<open>A call that reaches the engine, and the state it leaves\<close>

lemma kdf_engine_success:
  assumes call: "kdf_call w pass_arg opts p s c len h"
    and c: "1 \<le> c" "c \<le> INT_MAX"
    and len: "0 \<le> len" "len \<le> INT_MAX"
    and md: "GetDigestPtr lib w h = Inr md" "digest_ok md"
    and sz: "int (length (heap w p)) \<le> INT_MAX" "int (length (heap w s)) \<le> INT_MAX"
  shows "kdf_pbkdf2_hmac PKCS5_PBKDF2_HMAC lib pass_arg opts w =
     (Inr (RString (next_obj w)),
      w\<lparr>kwargs_ids := kdf_ids,
        heap := (heap w)(next_obj w :=
                  take (nat len) (concat (map (T_block md (heap w p) (heap w s) (nat c))
                                           [1..<Suc (block_count md len)]))),
        next_obj := Suc (next_obj w),
        prf_calls := prf_calls w + block_count md len * nat c\<rparr>)"
proof -
  define dk where
    "dk = take (nat len) (concat (map (T_block md (heap w p) (heap w s) (nat c))
                                    [1..<Suc (block_count md len)]))"
  have l: "block_count md len \<le> 2 ^ 32 - 1" by (rule block_count_int[OF md(2) len(2)])
  have cm: "- INT_MAX - 1 \<le> c" using c(1) by (simp add: INT_MAX_def)
  have lm: "- INT_MAX - 1 \<le> len" using len(1) by (simp add: INT_MAX_def)
  have ldk: "length dk = nat len"
    unfolding dk_def by (rule length_derived[OF md(2) len(1)])
  have pk: "PKCS5_PBKDF2_HMAC (heap w p) (int (length (heap w p))) (heap w s)
              (int (length (heap w s))) c md len = (True, dk, block_count md len * nat c)"
    unfolding dk_def by (rule PKCS5_valid[OF c(1) len(1) l])
  have "kdf_pbkdf2_hmac PKCS5_PBKDF2_HMAC lib pass_arg opts w =
     (Inr (RString (next_obj w)),
      w\<lparr>kwargs_ids := kdf_ids,
        heap := (heap w)(next_obj w := dk),
        next_obj := Suc (next_obj w),
        prf_calls := prf_calls w + block_count md len * nat c\<rparr>)"
    using c len cm lm sz
    by (simp add: kdf_typed[OF call] md(1) pk store_out_exact[OF ldk])
  then show ?thesis unfolding dk_def .
qed

lemma kdf_state_after:
  assumes "kdf_call w pass_arg opts p s c len h"
  shows "kwargs_ids (snd (kdf_pbkdf2_hmac derive lib pass_arg opts w)) = kdf_ids"
    and "next_obj w \<le> next_obj (snd (kdf_pbkdf2_hmac derive lib pass_arg opts w))"
  by (simp_all add: kdf_typed[OF assms] split: sum.split prod.split)

lemma kdf_call_again:
  assumes "kdf_call w pass_arg opts p s c len h"
  shows "kdf_call (snd (kdf_pbkdf2_hmac derive lib pass_arg opts w)) pass_arg opts p s c len h"
  using assms kdf_state_after[OF assms, of derive lib]
  by (simp add: kdf_call_def static_ok_def)

lemma GetDigestPtr_again:
  assumes "a < next_obj w"
  shows "GetDigestPtr lib (snd (kdf_pbkdf2_hmac derive lib' pass_arg opts w)) (RString a) =
         GetDigestPtr lib w (RString a)"
  by (simp add: GetDigestPtr_def kdf_heap_frame[OF assms])

subsection \<open>The concrete run\<close>

lemma world0_call:
  "kdf_call world0 (RString 0) (kwargs0 c len h) 0 1 c len h"
  by (simp add: kdf_call_def static_ok_def world0_def kwargs0_def rb_get_kwargs_def kdf_ids_def)

lemma world0_digest: "GetDigestPtr xsum_lib world0 (RString 2) = Inr xsum_md"
  by (simp add: GetDigestPtr_def xsum_lib_def world0_def)

lemma world0_no_digest: "GetDigestPtr xsum_lib world0 (RString 3) = Inl UnsupportedHashAlgorithm"
  by (simp add: GetDigestPtr_def xsum_lib_def world0_def)

lemma digest_ok_xsum: "digest_ok xsum_md"
  by (simp add: digest_ok_def xsum_md_def)

lemma world0_sizes:
  "int (length (heap world0 0)) \<le> INT_MAX" "int (length (heap world0 1)) \<le> INT_MAX"
  by (simp_all add: world0_def INT_MAX_def)

lemma int_range:
  "1 \<le> (3::int)" "(3::int) \<le> INT_MAX" "0 \<le> (5::int)" "(5::int) \<le> INT_MAX"
  "0 \<le> (0::int)" "(0::int) \<le> INT_MAX" "0 \<le> (2::int)" "(2::int) \<le> (4::int)" "(4::int) \<le> INT_MAX"
  "- INT_MAX - 1 \<le> 0" "(0::int) < 1"
  by (simp_all add: INT_MAX_def)

lemma T_block_3:
  "T_block md P S 3 i =
     (let u1 = PRF md P (S @ INT_be i); u2 = PRF md P u1; u3 = PRF md P u2
      in xor_bytes (xor_bytes u1 u2) u3)"
proof -
  have up: "[2..<Suc 3] = [2, 3]" by (simp add: upt_rec)
  show ?thesis
    unfolding T_block_def up
    by (simp add: U_chain_def numeral_2_eq_2 numeral_3_eq_3 Let_def)
qed

lemma xsum_blocks:
  "T_block xsum_md [0x70, 0x77] [0x4e, 0x61, 0x43, 0x6c] 3 (Suc 0) = [0x15, 0x33]"
  "T_block xsum_md [0x70, 0x77] [0x4e, 0x61, 0x43, 0x6c] 3 2 = [0x1a, 0x32]"
  "T_block xsum_md [0x70, 0x77] [0x4e, 0x61, 0x43, 0x6c] 3 3 = [0x1f, 0x31]"
  unfolding T_block_3 by (simp_all add: Let_def xsum_md_def INT_be_def xor_bytes_def)

section \<open>The claims\<close>

subsection \<open>The derived key\<close>

text \<open>
  C2. For every block index \<open>i\<close> from 1 to \<open>l = ceil(outputLength / hLen)\<close> the block
  \<open>T_i\<close> is the XOR of the chain \<open>U_1 = PRF(password, salt || INT(i))\<close>,
  \<open>U_j = PRF(password, U_{j-1})\<close> for \<open>j\<close> up to the iteration count, and the derived
  key is \<open>T_1 || ... || T_l\<close> cut to \<open>outputLength\<close> bytes. With the engine of the
  spec behind the library call, the String a valid call returns holds exactly these
  bytes: the loops with their running accumulator compute \<open>T_block\<close>, which is the
  fold over \<open>U_chain\<close>. That \<open>INT(i)\<close> is the big-endian four-byte numeral of \<open>i\<close>
  is \<open>INT_be_big_endian\<close>.
\<close>

theorem derived_key_is_block_concatenation:
  assumes "kdf_call w pass_arg opts p s c len h"
    and "1 \<le> c" and "c \<le> INT_MAX"
    and "0 \<le> len" and "len \<le> INT_MAX"
    and "GetDigestPtr lib w h = Inr md" and "digest_ok md"
    and "int (length (heap w p)) \<le> INT_MAX" and "int (length (heap w s)) \<le> INT_MAX"
  shows "returned (kdf_pbkdf2_hmac PKCS5_PBKDF2_HMAC lib pass_arg opts w) =
           Inr (take (nat len)
                  (concat (map (T_block md (heap w p) (heap w s) (nat c))
                             [1..<Suc (block_count md len)])))"
  by (simp add: kdf_engine_success[OF assms] returned_def del: upt_Suc)

theorem derived_key_is_block_concatenation_witness:
  "kdf_call world0 (RString 0) (kwargs0 3 5 (RString 2)) 0 1 3 5 (RString 2)
   \<and> 1 \<le> (3::int) \<and> 3 \<le> INT_MAX \<and> 0 \<le> (5::int) \<and> 5 \<le> INT_MAX
   \<and> GetDigestPtr xsum_lib world0 (RString 2) = Inr xsum_md \<and> digest_ok xsum_md
   \<and> int (length (heap world0 0)) \<le> INT_MAX \<and> int (length (heap world0 1)) \<le> INT_MAX
   \<and> returned (kdf_pbkdf2_hmac PKCS5_PBKDF2_HMAC xsum_lib (RString 0)
         (kwargs0 3 5 (RString 2)) world0) =
       Inr (take 5 (concat (map (T_block xsum_md [0x70, 0x77] [0x4e, 0x61, 0x43, 0x6c] 3)
                             [1, 2, 3])))
   \<and> returned (kdf_pbkdf2_hmac PKCS5_PBKDF2_HMAC xsum_lib (RString 0)
         (kwargs0 3 5 (RString 2)) world0) = Inr [0x15, 0x33, 0x1a, 0x32, 0x1f]"
proof -
  have bc: "block_count xsum_md 5 = 3" by (simp add: block_count_def xsum_md_def)
  have hp: "heap world0 0 = [0x70, 0x77]" "heap world0 1 = [0x4e, 0x61, 0x43, 0x6c]"
    by (simp_all add: world0_def)
  have up: "[1..<Suc 3] = [1, 2, 3]" by (simp add: upt_rec)
  have r: "returned (kdf_pbkdf2_hmac PKCS5_PBKDF2_HMAC xsum_lib (RString 0)
         (kwargs0 3 5 (RString 2)) world0) =
       Inr (take 5 (concat (map (T_block xsum_md [0x70, 0x77] [0x4e, 0x61, 0x43, 0x6c] 3)
                             [1, 2, 3])))"
    using derived_key_is_block_concatenation[OF world0_call int_range(1-4) world0_digest
        digest_ok_xsum world0_sizes]
    unfolding bc hp up by simp
  have v: "take 5 (concat (map (T_block xsum_md [0x70, 0x77] [0x4e, 0x61, 0x43, 0x6c] 3)
                             [1, 2, 3])) = [0x15, 0x33, 0x1a, 0x32, 0x1f]"
    by (simp add: xsum_blocks)
  show ?thesis
    using r world0_call[of 3 5 "RString 2"] int_range(1-4) world0_digest digest_ok_xsum
      world0_sizes
    unfolding v by simp
qed

text \<open>
  C9. For a fixed password, salt, iteration count and digest, the output for a smaller
  length is a prefix of the output for a larger length; with \<open>len = hLen\<close> and
  \<open>len' = 2 * hLen\<close> the first is the first \<open>hLen\<close> bytes of the second. With the
  engine of the spec behind the library call, both calls return, and the shorter key is
  the longer one cut to \<open>len\<close> bytes, because no block depends on the block count.
\<close>

theorem shorter_output_is_prefix:
  assumes "kdf_call w pass_arg opts p s c len h"
    and "kdf_call w pass_arg opts' p s c len' h"
    and "1 \<le> c" and "c \<le> INT_MAX"
    and "0 \<le> len" and "len \<le> len'" and "len' \<le> INT_MAX"
    and "GetDigestPtr lib w h = Inr md" and "digest_ok md"
    and "int (length (heap w p)) \<le> INT_MAX" and "int (length (heap w s)) \<le> INT_MAX"
  shows "\<exists>k k'. returned (kdf_pbkdf2_hmac PKCS5_PBKDF2_HMAC lib pass_arg opts w) = Inr k
              \<and> returned (kdf_pbkdf2_hmac PKCS5_PBKDF2_HMAC lib pass_arg opts' w) = Inr k'
              \<and> length k = nat len \<and> length k' = nat len'
              \<and> k = take (nat len) k'"
proof -
  have len: "len \<le> INT_MAX" and len': "0 \<le> len'" using assms(5-7) by simp_all
  have r: "kdf_pbkdf2_hmac PKCS5_PBKDF2_HMAC lib pass_arg opts w =
     (Inr (RString (next_obj w)),
      w\<lparr>kwargs_ids := kdf_ids,
        heap := (heap w)(next_obj w :=
                  take (nat len) (concat (map (T_block md (heap w p) (heap w s) (nat c))
                                           [1..<Suc (block_count md len)]))),
        next_obj := Suc (next_obj w),
        prf_calls := prf_calls w + block_count md len * nat c\<rparr>)"
    by (rule kdf_engine_success[OF assms(1) assms(3,4) assms(5) len assms(8-11)])
  have r': "kdf_pbkdf2_hmac PKCS5_PBKDF2_HMAC lib pass_arg opts' w =
     (Inr (RString (next_obj w)),
      w\<lparr>kwargs_ids := kdf_ids,
        heap := (heap w)(next_obj w :=
                  take (nat len') (concat (map (T_block md (heap w p) (heap w s) (nat c))
                                           [1..<Suc (block_count md len')]))),
        next_obj := Suc (next_obj w),
        prf_calls := prf_calls w + block_count md len' * nat c\<rparr>)"
    by (rule kdf_engine_success[OF assms(2) assms(3,4) len' assms(7) assms(8-11)])
  show ?thesis
    unfolding r r' returned_def
    using take_blocks_prefix[OF assms(9) assms(5,6), of "heap w p" "heap w s" "nat c"]
      length_derived[OF assms(9) assms(5), of "heap w p" "heap w s" "nat c"]
      length_derived[OF assms(9) len', of "heap w p" "heap w s" "nat c"]
    by (simp del: upt_Suc)
qed

theorem shorter_output_is_prefix_witness:
  "kdf_call world0 (RString 0) (kwargs0 3 2 (RString 2)) 0 1 3 2 (RString 2)
   \<and> kdf_call world0 (RString 0) (kwargs0 3 4 (RString 2)) 0 1 3 4 (RString 2)
   \<and> 1 \<le> (3::int) \<and> 3 \<le> INT_MAX \<and> 0 \<le> (2::int) \<and> (2::int) \<le> 4 \<and> 4 \<le> INT_MAX
   \<and> GetDigestPtr xsum_lib world0 (RString 2) = Inr xsum_md \<and> digest_ok xsum_md
   \<and> hLen xsum_md = 2
   \<and> int (length (heap world0 0)) \<le> INT_MAX \<and> int (length (heap world0 1)) \<le> INT_MAX
   \<and> (\<exists>k k'. returned (kdf_pbkdf2_hmac PKCS5_PBKDF2_HMAC xsum_lib (RString 0)
                   (kwargs0 3 2 (RString 2)) world0) = Inr k
            \<and> returned (kdf_pbkdf2_hmac PKCS5_PBKDF2_HMAC xsum_lib (RString 0)
                   (kwargs0 3 4 (RString 2)) world0) = Inr k'
            \<and> length k = 2 \<and> length k' = 4 \<and> k = take 2 k')"
proof -
  have h: "hLen xsum_md = 2" by (simp add: xsum_md_def)
  show ?thesis
    using shorter_output_is_prefix[OF world0_call world0_call int_range(1,2,7,8,9) world0_digest
        digest_ok_xsum world0_sizes]
      world0_call[of 3 2 "RString 2"] world0_call[of 3 4 "RString 2"] int_range world0_digest
      digest_ok_xsum world0_sizes h
    by simp
qed

text \<open>
  C3. A valid request (iterations at least 1, a length of at least 0, a digest that
  resolves) returns exactly \<open>outputLength\<close> bytes, and the empty String for length 0.
  This is a property of the function itself, for every implementation of the library
  call: the String is allocated with \<open>len\<close> bytes (line 57), the library writes into
  it (line 61) and the same String is returned (line 64). First, whatever a well-typed
  call returns has exactly \<open>len\<close> bytes. Second, the call does return when the
  iteration count, the length and the sizes of password and salt are those a C
  \<^verbatim>\<open>int\<close> holds and the library call reports success; \<open>kdf_engine_success\<close> shows
  that the engine of the spec reports success on every such request.
\<close>

theorem returned_length_exact:
  assumes "kdf_call w pass_arg opts p s c len h"
  shows "(\<forall>dk. returned (kdf_pbkdf2_hmac derive lib pass_arg opts w) = Inr dk \<longrightarrow>
            length dk = nat len \<and> (len = 0 \<longrightarrow> dk = []))
       \<and> (\<forall>md. 1 \<le> c \<and> c \<le> INT_MAX \<and> 0 \<le> len \<and> len \<le> INT_MAX
              \<and> GetDigestPtr lib w h = Inr md
              \<and> int (length (heap w p)) \<le> INT_MAX \<and> int (length (heap w s)) \<le> INT_MAX
              \<and> fst (derive (heap w p) (int (length (heap w p))) (heap w s)
                        (int (length (heap w s))) c md len)
            \<longrightarrow> (\<exists>dk. returned (kdf_pbkdf2_hmac derive lib pass_arg opts w) = Inr dk))"
proof -
  have exact: "length dk = nat len \<and> (len = 0 \<longrightarrow> dk = [])"
    if r: "returned (kdf_pbkdf2_hmac derive lib pass_arg opts w) = Inr dk" for dk
  proof -
    have "length dk = nat len"
      using r
      by (auto simp: kdf_typed[OF assms] returned_def length_store_out
            split: if_split_asm sum.split_asm prod.split_asm)
    then show ?thesis by auto
  qed
  have returns: "\<exists>dk. returned (kdf_pbkdf2_hmac derive lib pass_arg opts w) = Inr dk"
    if a: "1 \<le> c \<and> c \<le> INT_MAX \<and> 0 \<le> len \<and> len \<le> INT_MAX
              \<and> GetDigestPtr lib w h = Inr md
              \<and> int (length (heap w p)) \<le> INT_MAX \<and> int (length (heap w s)) \<le> INT_MAX
              \<and> fst (derive (heap w p) (int (length (heap w p))) (heap w s)
                        (int (length (heap w s))) c md len)" for md
  proof -
    have cm: "- INT_MAX - 1 \<le> c" and lm: "- INT_MAX - 1 \<le> len"
      using a by (simp_all add: INT_MAX_def)
    obtain ok out n where
      pk: "derive (heap w p) (int (length (heap w p))) (heap w s) (int (length (heap w s)))
             c md len = (ok, out, n)"
      by (cases "derive (heap w p) (int (length (heap w p))) (heap w s)
                   (int (length (heap w s))) c md len") auto
    have ok: "ok" using a pk by simp
    show ?thesis
      using a cm lm ok by (simp add: kdf_typed[OF assms] pk returned_def)
  qed
  show ?thesis using exact returns by blast
qed

theorem returned_length_exact_witness:
  "kdf_call world0 (RString 0) (kwargs0 3 5 (RString 2)) 0 1 3 5 (RString 2)
   \<and> kdf_call world0 (RString 0) (kwargs0 3 0 (RString 2)) 0 1 3 0 (RString 2)
   \<and> 1 \<le> (3::int) \<and> 3 \<le> INT_MAX \<and> 0 \<le> (5::int) \<and> 5 \<le> INT_MAX
   \<and> 0 \<le> (0::int) \<and> 0 \<le> INT_MAX
   \<and> GetDigestPtr xsum_lib world0 (RString 2) = Inr xsum_md
   \<and> int (length (heap world0 0)) \<le> INT_MAX \<and> int (length (heap world0 1)) \<le> INT_MAX
   \<and> fst (PKCS5_PBKDF2_HMAC (heap world0 0) (int (length (heap world0 0))) (heap world0 1)
              (int (length (heap world0 1))) 3 xsum_md 5)
   \<and> fst (PKCS5_PBKDF2_HMAC (heap world0 0) (int (length (heap world0 0))) (heap world0 1)
              (int (length (heap world0 1))) 3 xsum_md 0)
   \<and> (\<exists>dk. returned (kdf_pbkdf2_hmac PKCS5_PBKDF2_HMAC xsum_lib (RString 0)
                (kwargs0 3 5 (RString 2)) world0) = Inr dk \<and> length dk = 5)
   \<and> returned (kdf_pbkdf2_hmac PKCS5_PBKDF2_HMAC xsum_lib (RString 0)
         (kwargs0 3 0 (RString 2)) world0) = Inr []"
proof -
  have ok5: "fst (PKCS5_PBKDF2_HMAC (heap world0 0) (int (length (heap world0 0))) (heap world0 1)
              (int (length (heap world0 1))) 3 xsum_md 5)"
    by (simp add: PKCS5_valid[OF int_range(1,3) block_count_int[OF digest_ok_xsum int_range(4)]])
  have ok0: "fst (PKCS5_PBKDF2_HMAC (heap world0 0) (int (length (heap world0 0))) (heap world0 1)
              (int (length (heap world0 1))) 3 xsum_md 0)"
    by (simp add: PKCS5_valid[OF int_range(1,5) block_count_int[OF digest_ok_xsum int_range(6)]])
  have five: "\<exists>dk. returned (kdf_pbkdf2_hmac PKCS5_PBKDF2_HMAC xsum_lib (RString 0)
                (kwargs0 3 5 (RString 2)) world0) = Inr dk \<and> length dk = 5"
    using returned_length_exact[where derive = PKCS5_PBKDF2_HMAC and lib = xsum_lib,
        OF world0_call[of 3 5 "RString 2"]]
      int_range(1-4) world0_digest world0_sizes ok5
    by fastforce
  have zero: "returned (kdf_pbkdf2_hmac PKCS5_PBKDF2_HMAC xsum_lib (RString 0)
                (kwargs0 3 0 (RString 2)) world0) = Inr []"
    using returned_length_exact[where derive = PKCS5_PBKDF2_HMAC and lib = xsum_lib,
        OF world0_call[of 3 0 "RString 2"]]
      int_range(1,2,5,6) world0_digest world0_sizes ok0
    by fastforce
  show ?thesis
    using world0_call[of 3 5 "RString 2"] world0_call[of 3 0 "RString 2"] int_range
      world0_digest world0_sizes ok5 ok0 five zero
    by simp
qed

subsection \<open>Errors raised before the derivation starts\<close>

text \<open>
  C5. A negative requested output length makes the call fail before any PRF invocation.
  For a well-typed call whose digest resolves, \<^verbatim>\<open>rb_str_new\<close> (line 57) raises
  \<open>ArgumentError\<close>, which is how the binding reports the invalid parameter (a length
  below the C \<^verbatim>\<open>int\<close> range is refused one step earlier, by \<^verbatim>\<open>NUM2INT\<close>, with
  \<open>RangeError\<close>). This holds for every implementation of \<^verbatim>\<open>PKCS5_PBKDF2_HMAC\<close>: the
  library is not called, the state changes only in the static array, and the count of
  PRF invocations stays as it was.
\<close>

theorem negative_length_raises:
  assumes "kdf_call w pass_arg opts p s c len h"
    and "- INT_MAX - 1 \<le> c" and "c \<le> INT_MAX"
    and "GetDigestPtr lib w h = Inr md"
    and "len < 0"
  shows "kdf_pbkdf2_hmac derive lib pass_arg opts w =
           (Inl (if len < - INT_MAX - 1 then RangeError else ArgumentError),
            w\<lparr>kwargs_ids := kdf_ids\<rparr>)
         \<and> prf_calls (snd (kdf_pbkdf2_hmac derive lib pass_arg opts w)) = prf_calls w"
  using assms(2-5) by (simp add: kdf_typed[OF assms(1)] INT_MAX_def)

theorem negative_length_raises_witness:
  "kdf_call world0 (RString 0) (kwargs0 3 (- 1) (RString 2)) 0 1 3 (- 1) (RString 2)
   \<and> - INT_MAX - 1 \<le> 3 \<and> 3 \<le> INT_MAX
   \<and> GetDigestPtr xsum_lib world0 (RString 2) = Inr xsum_md
   \<and> (- 1 :: int) < 0
   \<and> kdf_pbkdf2_hmac PKCS5_PBKDF2_HMAC xsum_lib (RString 0) (kwargs0 3 (- 1) (RString 2)) world0 =
         (Inl ArgumentError, world0\<lparr>kwargs_ids := kdf_ids\<rparr>)
   \<and> prf_calls (snd (kdf_pbkdf2_hmac PKCS5_PBKDF2_HMAC xsum_lib (RString 0)
         (kwargs0 3 (- 1) (RString 2)) world0)) = 0"
proof -
  have call: "kdf_call world0 (RString 0) (kwargs0 3 (- 1) (RString 2)) 0 1 3 (- 1) (RString 2)"
    by (rule world0_call)
  have c: "- INT_MAX - 1 \<le> 3" "3 \<le> INT_MAX" by (simp_all add: INT_MAX_def)
  have neg: "(- 1 :: int) < 0" by simp
  show ?thesis
    using negative_length_raises[OF call c world0_digest neg, of PKCS5_PBKDF2_HMAC] call c world0_digest
    by (simp add: INT_MAX_def world0_def)
qed

text \<open>
  C6. A hash identifier that does not resolve makes the call fail with
  \<open>UnsupportedHashAlgorithm\<close>. Whatever \<^verbatim>\<open>GetDigestPtr\<close> (line 55) raises leaves the
  function unchanged, and it can raise nothing else; the result string is not
  allocated, the library is not called and no PRF invocation is made. The iteration
  count and the length need only be C \<^verbatim>\<open>int\<close>s: the digest is resolved before
  either is looked at.
\<close>

theorem unsupported_hash_propagates:
  assumes "kdf_call w pass_arg opts p s c len h"
    and "- INT_MAX - 1 \<le> c" and "c \<le> INT_MAX"
    and "- INT_MAX - 1 \<le> len" and "len \<le> INT_MAX"
    and "GetDigestPtr lib w h = Inl e"
  shows "e = UnsupportedHashAlgorithm
         \<and> kdf_pbkdf2_hmac derive lib pass_arg opts w = (Inl e, w\<lparr>kwargs_ids := kdf_ids\<rparr>)
         \<and> prf_calls (snd (kdf_pbkdf2_hmac derive lib pass_arg opts w)) = prf_calls w
         \<and> next_obj (snd (kdf_pbkdf2_hmac derive lib pass_arg opts w)) = next_obj w"
proof -
  have "e = UnsupportedHashAlgorithm"
    using assms(6) by (auto simp: GetDigestPtr_def split: rb_value.splits option.splits)
  then show ?thesis
    using assms(2-6) by (simp add: kdf_typed[OF assms(1)])
qed

theorem unsupported_hash_propagates_witness:
  "kdf_call world0 (RString 0) (kwargs0 3 5 (RString 3)) 0 1 3 5 (RString 3)
   \<and> - INT_MAX - 1 \<le> 3 \<and> 3 \<le> INT_MAX \<and> - INT_MAX - 1 \<le> 5 \<and> 5 \<le> INT_MAX
   \<and> GetDigestPtr xsum_lib world0 (RString 3) = Inl UnsupportedHashAlgorithm
   \<and> kdf_pbkdf2_hmac PKCS5_PBKDF2_HMAC xsum_lib (RString 0) (kwargs0 3 5 (RString 3)) world0 =
         (Inl UnsupportedHashAlgorithm, world0\<lparr>kwargs_ids := kdf_ids\<rparr>)
   \<and> prf_calls (snd (kdf_pbkdf2_hmac PKCS5_PBKDF2_HMAC xsum_lib (RString 0)
         (kwargs0 3 5 (RString 3)) world0)) = 0
   \<and> next_obj (snd (kdf_pbkdf2_hmac PKCS5_PBKDF2_HMAC xsum_lib (RString 0)
         (kwargs0 3 5 (RString 3)) world0)) = 4"
proof -
  have call: "kdf_call world0 (RString 0) (kwargs0 3 5 (RString 3)) 0 1 3 5 (RString 3)"
    by (rule world0_call)
  have c: "- INT_MAX - 1 \<le> 3" "3 \<le> INT_MAX" by (simp_all add: INT_MAX_def)
  have l: "- INT_MAX - 1 \<le> 5" "5 \<le> INT_MAX" by (simp_all add: INT_MAX_def)
  show ?thesis
    using unsupported_hash_propagates[OF call c l world0_no_digest, of PKCS5_PBKDF2_HMAC]
      call c l world0_no_digest
    by (simp add: world0_def)
qed

text \<open>
  C7. A request whose block count \<open>l = ceil(outputLength / hLen)\<close> would exceed
  \<open>2^32 - 1\<close> fails instead of wrapping the block counter. Whatever the digest, such a
  length is beyond the C \<^verbatim>\<open>int\<close> the function keeps it in, so \<^verbatim>\<open>NUM2INT\<close> (line 54)
  raises \<open>RangeError\<close>, the binding's report of an output that is too large; the
  library is not called and no PRF invocation is made.
\<close>

theorem oversized_output_raises:
  assumes "kdf_call w pass_arg opts p s c len h"
    and "2 ^ 32 - 1 < block_count md len"
  shows "kdf_pbkdf2_hmac derive lib pass_arg opts w = (Inl RangeError, w\<lparr>kwargs_ids := kdf_ids\<rparr>)
         \<and> prf_calls (snd (kdf_pbkdf2_hmac derive lib pass_arg opts w)) = prf_calls w"
proof -
  have pos: "0 < hLen md"
    using assms(2) by (cases "hLen md = 0") (simp_all add: block_count_def)
  have "block_count md len \<le> nat len" by (rule block_count_le[OF pos])
  then have "(2::nat) ^ 32 - 1 < nat len" using assms(2) by simp
  then have "INT_MAX < len" by (simp add: INT_MAX_def)
  then show ?thesis by (simp add: kdf_typed[OF assms(1)])
qed

theorem oversized_output_raises_witness:
  "kdf_call world0 (RString 0) (kwargs0 3 8589934592 (RString 2)) 0 1 3 8589934592 (RString 2)
   \<and> 2 ^ 32 - 1 < block_count xsum_md 8589934592
   \<and> kdf_pbkdf2_hmac PKCS5_PBKDF2_HMAC xsum_lib (RString 0)
         (kwargs0 3 8589934592 (RString 2)) world0 =
         (Inl RangeError, world0\<lparr>kwargs_ids := kdf_ids\<rparr>)
   \<and> prf_calls (snd (kdf_pbkdf2_hmac PKCS5_PBKDF2_HMAC xsum_lib (RString 0)
         (kwargs0 3 8589934592 (RString 2)) world0)) = 0"
proof -
  have call: "kdf_call world0 (RString 0) (kwargs0 3 8589934592 (RString 2)) 0 1 3 8589934592
                (RString 2)"
    by (rule world0_call)
  have big: "2 ^ 32 - 1 < block_count xsum_md 8589934592"
    by (simp add: block_count_def xsum_md_def)
  show ?thesis
    using oversized_output_raises[OF call big, of PKCS5_PBKDF2_HMAC xsum_lib] call big
    by (simp add: world0_def)
qed

text \<open>
  C4. An iteration count of zero, or any count below 1, makes the call fail, and no PRF
  invocation is made. The function passes the count on as it is (line 60); it is the
  engine that refuses it, with \<open>InvalidParameter\<close> in its first step, and the function
  raises \<open>KDFError\<close> for the failed library call (line 62).
\<close>

theorem zero_iterations_rejected:
  assumes "kdf_call w pass_arg opts p s c len h"
    and "c < 1" and "- INT_MAX - 1 \<le> c"
    and "0 \<le> len" and "len \<le> INT_MAX"
    and "GetDigestPtr lib w h = Inr md"
    and "int (length (heap w p)) \<le> INT_MAX" and "int (length (heap w s)) \<le> INT_MAX"
  shows "deriveKey md (heap w p) (heap w s) c len = (Inl InvalidParameter, 0)
         \<and> fst (kdf_pbkdf2_hmac PKCS5_PBKDF2_HMAC lib pass_arg opts w) = Inl KDFError
         \<and> prf_calls (snd (kdf_pbkdf2_hmac PKCS5_PBKDF2_HMAC lib pass_arg opts w)) = prf_calls w"
proof -
  have cM: "c \<le> INT_MAX" using assms(2) by (simp add: INT_MAX_def)
  have lm: "- INT_MAX - 1 \<le> len" using assms(4) by (simp add: INT_MAX_def)
  have dk: "deriveKey md P S c len = (Inl InvalidParameter, 0)" for P S
    using assms(2) by (simp add: deriveKey_def)
  show ?thesis
    using assms(2-8) cM lm
    by (simp add: kdf_typed[OF assms(1)] PKCS5_PBKDF2_HMAC_def dk)
qed

theorem zero_iterations_rejected_witness:
  "kdf_call world0 (RString 0) (kwargs0 0 5 (RString 2)) 0 1 0 5 (RString 2)
   \<and> (0::int) < 1 \<and> - INT_MAX - 1 \<le> 0 \<and> 0 \<le> (5::int) \<and> 5 \<le> INT_MAX
   \<and> GetDigestPtr xsum_lib world0 (RString 2) = Inr xsum_md
   \<and> int (length (heap world0 0)) \<le> INT_MAX \<and> int (length (heap world0 1)) \<le> INT_MAX
   \<and> deriveKey xsum_md (heap world0 0) (heap world0 1) 0 5 = (Inl InvalidParameter, 0)
   \<and> fst (kdf_pbkdf2_hmac PKCS5_PBKDF2_HMAC xsum_lib (RString 0)
             (kwargs0 0 5 (RString 2)) world0) = Inl KDFError
   \<and> prf_calls (snd (kdf_pbkdf2_hmac PKCS5_PBKDF2_HMAC xsum_lib (RString 0)
             (kwargs0 0 5 (RString 2)) world0)) = 0"
  using zero_iterations_rejected[OF world0_call int_range(11,10,3,4) world0_digest world0_sizes]
    world0_call[of 0 5 "RString 2"] int_range world0_digest world0_sizes
  by (simp add: world0_def)

subsection \<open>Determinism and the caller's data\<close>

text \<open>
  C8. For fixed inputs, repeated calls return the same bytes. The bytes a call returns,
  or the exception it raises, depend on nothing but the password bytes, the salt bytes,
  the iteration count, the length and the digest the hash identifier resolves to:
  two calls that agree on these agree on the outcome, in whatever states they are made
  (before or after the static array is filled, with other Strings allocated) and
  whatever the library function is. The witness is a call and its repetition in the
  state the first call left behind.
\<close>

theorem derivation_is_deterministic:
  assumes "kdf_call w pass_arg opts p s c len h"
    and "kdf_call w' pass_arg' opts' p' s' c len h'"
    and "heap w' p' = heap w p" and "heap w' s' = heap w s"
    and "GetDigestPtr lib w' h' = GetDigestPtr lib w h"
  shows "returned (kdf_pbkdf2_hmac derive lib pass_arg' opts' w') =
         returned (kdf_pbkdf2_hmac derive lib pass_arg opts w)"
  by (simp add: kdf_typed[OF assms(1)] kdf_typed[OF assms(2)] assms(3-5) returned_def
        split: sum.splits prod.splits)

theorem derivation_is_deterministic_witness:
  "kdf_call world0 (RString 0) (kwargs0 3 5 (RString 2)) 0 1 3 5 (RString 2)
   \<and> kdf_call (snd (kdf_pbkdf2_hmac PKCS5_PBKDF2_HMAC xsum_lib (RString 0)
                      (kwargs0 3 5 (RString 2)) world0))
        (RString 0) (kwargs0 3 5 (RString 2)) 0 1 3 5 (RString 2)
   \<and> heap (snd (kdf_pbkdf2_hmac PKCS5_PBKDF2_HMAC xsum_lib (RString 0)
                  (kwargs0 3 5 (RString 2)) world0)) 0 = heap world0 0
   \<and> heap (snd (kdf_pbkdf2_hmac PKCS5_PBKDF2_HMAC xsum_lib (RString 0)
                  (kwargs0 3 5 (RString 2)) world0)) 1 = heap world0 1
   \<and> GetDigestPtr xsum_lib (snd (kdf_pbkdf2_hmac PKCS5_PBKDF2_HMAC xsum_lib (RString 0)
                  (kwargs0 3 5 (RString 2)) world0)) (RString 2) =
       GetDigestPtr xsum_lib world0 (RString 2)
   \<and> returned (kdf_pbkdf2_hmac PKCS5_PBKDF2_HMAC xsum_lib (RString 0) (kwargs0 3 5 (RString 2))
         (snd (kdf_pbkdf2_hmac PKCS5_PBKDF2_HMAC xsum_lib (RString 0)
                 (kwargs0 3 5 (RString 2)) world0))) =
       returned (kdf_pbkdf2_hmac PKCS5_PBKDF2_HMAC xsum_lib (RString 0)
                 (kwargs0 3 5 (RString 2)) world0)"
proof -
  let ?w = "snd (kdf_pbkdf2_hmac PKCS5_PBKDF2_HMAC xsum_lib (RString 0)
                  (kwargs0 3 5 (RString 2)) world0)"
  have n: "0 < next_obj world0" "1 < next_obj world0" "2 < next_obj world0"
    by (simp_all add: world0_def)
  have call: "kdf_call world0 (RString 0) (kwargs0 3 5 (RString 2)) 0 1 3 5 (RString 2)"
    by (rule world0_call)
  have again: "kdf_call ?w (RString 0) (kwargs0 3 5 (RString 2)) 0 1 3 5 (RString 2)"
    by (rule kdf_call_again[OF call])
  have hp: "heap ?w 0 = heap world0 0" by (rule kdf_heap_frame[OF n(1)])
  have hs: "heap ?w 1 = heap world0 1" by (rule kdf_heap_frame[OF n(2)])
  have dg: "GetDigestPtr xsum_lib ?w (RString 2) = GetDigestPtr xsum_lib world0 (RString 2)"
    by (rule GetDigestPtr_again[OF n(3)])
  show ?thesis
    using derivation_is_deterministic[OF call again hp hs dg, of PKCS5_PBKDF2_HMAC]
      call again hp hs dg
    by simp
qed

text \<open>
  C10. The call never modifies its inputs. Whatever the arguments and whatever the
  outcome, every String that was allocated before the call, the password and the salt
  among them, holds the same bytes after it; the only address written is the fresh one
  from \<^verbatim>\<open>rb_str_new\<close>, and a call that returns, returns that String.
\<close>

theorem inputs_unchanged:
  "(\<forall>a < next_obj w. heap (snd (kdf_pbkdf2_hmac derive lib pass_arg opts w)) a = heap w a)
   \<and> (\<forall>v. fst (kdf_pbkdf2_hmac derive lib pass_arg opts w) = Inr v \<longrightarrow> v = RString (next_obj w))"
  using kdf_heap_frame kdf_result_fresh by blast

theorem inputs_unchanged_witness:
  "heap (snd (kdf_pbkdf2_hmac PKCS5_PBKDF2_HMAC xsum_lib (RString 0)
            (kwargs0 3 5 (RString 2)) world0)) 0 = [0x70, 0x77]
   \<and> heap (snd (kdf_pbkdf2_hmac PKCS5_PBKDF2_HMAC xsum_lib (RString 0)
            (kwargs0 3 5 (RString 2)) world0)) 1 = [0x4e, 0x61, 0x43, 0x6c]
   \<and> fst (kdf_pbkdf2_hmac PKCS5_PBKDF2_HMAC xsum_lib (RString 0)
            (kwargs0 3 5 (RString 2)) world0) = Inr (RString 4)
   \<and> heap (snd (kdf_pbkdf2_hmac PKCS5_PBKDF2_HMAC xsum_lib (RString 0)
            (kwargs0 0 5 (RString 2)) world0)) 0 = [0x70, 0x77]
   \<and> heap (snd (kdf_pbkdf2_hmac PKCS5_PBKDF2_HMAC xsum_lib (RString 0)
            (kwargs0 0 5 (RString 2)) world0)) 1 = [0x4e, 0x61, 0x43, 0x6c]"
proof -
  have n: "next_obj world0 = 4" and h0: "heap world0 0 = [0x70, 0x77]"
    and h1: "heap world0 1 = [0x4e, 0x61, 0x43, 0x6c]"
    by (simp_all add: world0_def)
  have ok: "\<exists>v. fst (kdf_pbkdf2_hmac PKCS5_PBKDF2_HMAC xsum_lib (RString 0)
            (kwargs0 3 5 (RString 2)) world0) = Inr v"
    by (simp add: kdf_engine_success[OF world0_call int_range(1-4) world0_digest digest_ok_xsum
          world0_sizes])
  show ?thesis
    using inputs_unchanged[of world0 PKCS5_PBKDF2_HMAC xsum_lib "RString 0"
            "kwargs0 3 5 (RString 2)"]
      inputs_unchanged[of world0 PKCS5_PBKDF2_HMAC xsum_lib "RString 0"
            "kwargs0 0 5 (RString 2)"] ok
    unfolding n by (auto simp: world0_def)
qed

end
